theory Spec2Isabelle
  imports Complex_Main "HOL-Library.Word" "HOL-Library.Sublist"
begin

section \<open>JavaScript strings\<close>

text \<open>
  A JavaScript string is a sequence of UTF-16 code units. The viewer only uses three
  built-ins of \<^verbatim>\<open>String.prototype\<close>: \<^verbatim>\<open>includes\<close>, \<^verbatim>\<open>trim\<close> and
  \<^verbatim>\<open>toLowerCase\<close>.
\<close>

type_synonym jsstring = "16 word list"

text \<open>An ASCII literal as a JavaScript string, for writing concrete inputs.\<close>

definition utf16 :: "string \<Rightarrow> jsstring" where
  "utf16 s = map (\<lambda>c. of_nat (of_char c)) s"

text \<open>
  \<^verbatim>\<open>s.includes(q)\<close>: \<open>q\<close> occurs in \<open>s\<close> as a contiguous run of code units
  (\<^const>\<open>sublist\<close> is \<open>\<exists>ps ss. s = ps @ q @ ss\<close>, with code equations).
\<close>

definition str_includes :: "jsstring \<Rightarrow> jsstring \<Rightarrow> bool" where
  "str_includes s q = sublist q s"

text \<open>
  The code units \<^verbatim>\<open>trim\<close> strips: ECMAScript's WhiteSpace (TAB, VT, FF, SP, NBSP,
  ZWNBSP and the Unicode space separators) and LineTerminator (LF, CR, LS, PS).
\<close>

definition isWhiteSpace :: "16 word \<Rightarrow> bool" where
  "isWhiteSpace c = (c \<in> set [0x0009, 0x000A, 0x000B, 0x000C, 0x000D, 0x0020, 0x00A0,
     0x1680, 0x2000, 0x2001, 0x2002, 0x2003, 0x2004, 0x2005, 0x2006, 0x2007, 0x2008,
     0x2009, 0x200A, 0x2028, 0x2029, 0x202F, 0x205F, 0x3000, 0xFEFF])"

definition trim :: "jsstring \<Rightarrow> jsstring" where
  "trim s = rev (dropWhile isWhiteSpace (rev (dropWhile isWhiteSpace s)))"

text \<open>
  \<^verbatim>\<open>toLowerCase\<close> follows the Unicode case tables, which are no part of the
  repository: the functions below take it as the parameter \<open>toLowerCase\<close>. Its
  restriction to Basic Latin serves as a concrete instance.
\<close>

definition asciiLower :: "jsstring \<Rightarrow> jsstring" where
  "asciiLower s = map (\<lambda>c. if c \<in> set [0x41, 0x42, 0x43, 0x44, 0x45, 0x46, 0x47, 0x48,
     0x49, 0x4A, 0x4B, 0x4C, 0x4D, 0x4E, 0x4F, 0x50, 0x51, 0x52, 0x53, 0x54, 0x55, 0x56,
     0x57, 0x58, 0x59, 0x5A] then c + 0x20 else c) s"

section \<open>LogStreamViewer: the filter\<close>

datatype LogLevel = DEBUG | INFO | WARN | ERROR

text \<open>\<^verbatim>\<open>LogEntry\<close>; the field \<open>lc\<close> is the source's \<^verbatim>\<open>_lc\<close>.\<close>

record LogEntry =
  log_id :: jsstring
  ts :: int
  level :: LogLevel
  message :: jsstring
  lc :: jsstring

text \<open>How \<^verbatim>\<open>makeLog\<close> and \<^verbatim>\<open>generateMockLogs\<close> build an entry.\<close>

definition mkLogEntry ::
  "(jsstring \<Rightarrow> jsstring) \<Rightarrow> jsstring \<Rightarrow> int \<Rightarrow> LogLevel \<Rightarrow> jsstring \<Rightarrow> LogEntry" where
  "mkLogEntry toLowerCase i t lvl msg =
     \<lparr>log_id = i, ts = t, level = lvl, message = msg, lc = toLowerCase msg\<rparr>"

text \<open>
  \<^verbatim>\<open>const debouncedSearchLc = useMemo(() => debouncedSearch.trim().toLowerCase(), ...)\<close>
\<close>

definition debouncedSearchLc :: "(jsstring \<Rightarrow> jsstring) \<Rightarrow> jsstring \<Rightarrow> jsstring" where
  "debouncedSearchLc toLowerCase debouncedSearch = toLowerCase (trim debouncedSearch)"

text \<open>
  The body of the \<^verbatim>\<open>filteredIndices\<close> memo. \<open>enabledLevels\<close> is a
  \<^verbatim>\<open>Record<LogLevel, boolean>\<close>, a total map. The loop
  \<^verbatim>\<open>for (let i = 0; i < logs.length; i++)\<close> is the recursion on \<open>i\<close>;
  \<^verbatim>\<open>out.push(i)\<close> appends to the accumulator; the index \<open>logs ! i\<close> is read
  under the guard \<open>i < length logs\<close> only.
\<close>

function filteredIndices_loop ::
  "LogEntry list \<Rightarrow> (LogLevel \<Rightarrow> bool) \<Rightarrow> jsstring \<Rightarrow> bool \<Rightarrow> nat \<Rightarrow> nat list \<Rightarrow> nat list" where
  "filteredIndices_loop logs enabledLevels q useQuery i out =
     (if i < length logs then
        (if \<not> enabledLevels (level (logs ! i))
           then filteredIndices_loop logs enabledLevels q useQuery (i + 1) out
         else if useQuery \<and> \<not> str_includes (lc (logs ! i)) q
           then filteredIndices_loop logs enabledLevels q useQuery (i + 1) out
         else filteredIndices_loop logs enabledLevels q useQuery (i + 1) (out @ [i]))
      else out)"
  by pat_completeness auto
termination
  by (relation "measure (\<lambda>(logs, enabledLevels, q, useQuery, i, out). length logs - i)") auto

declare filteredIndices_loop.simps [simp del]

definition filteredIndices :: "LogEntry list \<Rightarrow> (LogLevel \<Rightarrow> bool) \<Rightarrow> jsstring \<Rightarrow> nat list" where
  "filteredIndices logs enabledLevels debouncedSearchLc_v =
     filteredIndices_loop logs enabledLevels debouncedSearchLc_v
       (length debouncedSearchLc_v > 0) 0 []"

text \<open>
  The viewer's initial filter state: every level enabled.
  \<^verbatim>\<open>useState({ DEBUG: true, INFO: true, WARN: true, ERROR: true })\<close>
\<close>

definition enabledLevels_initial :: "LogLevel \<Rightarrow> bool" where
  "enabledLevels_initial l = True"

text \<open>
  The visible index set as the specification words it, on the query text of the filter
  state: the positions whose record has an enabled level and, unless the query is empty,
  whose lowercase message contains the lowercase query.
\<close>

definition spec_filteredIndices ::
  "(jsstring \<Rightarrow> jsstring) \<Rightarrow> LogEntry list \<Rightarrow> (LogLevel \<Rightarrow> bool) \<Rightarrow> jsstring \<Rightarrow> nat list" where
  "spec_filteredIndices toLowerCase logs enabled query =
     filter (\<lambda>i. enabled (level (logs ! i)) \<and>
                  (query = [] \<or>
                   str_includes (toLowerCase (message (logs ! i))) (toLowerCase query)))
       [0..<length logs]"

text \<open>
  The buffer of the specification's scenario: five records with the levels
  \<open>[INFO, ERROR, INFO, WARN, ERROR]\<close>, built the way \<^verbatim>\<open>makeLog\<close> builds them.
\<close>

definition demoLogs :: "LogEntry list" where
  "demoLogs =
     [mkLogEntry asciiLower (utf16 ''log-0'') 1000 INFO (utf16 ''Info: request completed''),
      mkLogEntry asciiLower (utf16 ''log-1'') 1100 ERROR (utf16 ''Request failed''),
      mkLogEntry asciiLower (utf16 ''log-2'') 1200 INFO (utf16 ''cache INFO refreshed''),
      mkLogEntry asciiLower (utf16 ''log-3'') 1300 WARN (utf16 ''Retrying with backoff''),
      mkLogEntry asciiLower (utf16 ''log-4'') 1400 ERROR (utf16 ''Request failed again'')]"

section \<open>The ingestion buffers\<close>

text \<open>
  \<^verbatim>\<open>LogStreamDemo\<close>: \<^verbatim>\<open>const MAX_LOGS = 50000\<close>, a tick every 100 ms, and
  \<^verbatim>\<open>perTick = Math.max(1, Math.round((rate * intervalMs) / 1000))\<close> records per
  tick. The rate is the integer of the range input (1 to 200, initially 20);
  \<^verbatim>\<open>Math.round\<close> rounds halves up.
\<close>

definition MAX_LOGS :: nat where
  "MAX_LOGS = 50000"

definition perTick :: "nat \<Rightarrow> nat" where
  "perTick rate = max 1 ((rate * 100 + 500) div 1000)"

text \<open>
  The updater of the interval callback; \<open>batch\<close> holds the \<open>perTick\<close> fresh records:
  \<^verbatim>\<open>
  setLogs((prev) => {
    const next = prev.length > MAX_LOGS ? prev.slice(prev.length - MAX_LOGS) : prev;
    ...
    return next.concat(batch);
  });\<close>
\<close>

definition LogStreamDemo_tick :: "'a list \<Rightarrow> 'a list \<Rightarrow> 'a list" where
  "LogStreamDemo_tick prev batch =
     (let next = (if length prev > MAX_LOGS then drop (length prev - MAX_LOGS) prev else prev)
      in next @ batch)"

fun LogStreamDemo_run :: "'a list \<Rightarrow> 'a list list \<Rightarrow> 'a list" where
  "LogStreamDemo_run logs [] = logs"
| "LogStreamDemo_run logs (batch # batches) =
     LogStreamDemo_run (LogStreamDemo_tick logs batch) batches"

text \<open>
  \<^verbatim>\<open>BuildChallengePage\<close>:
  \<^verbatim>\<open>setLogs(prev => [...prev.slice(-999), newLog]); // Keep last 1000 logs\<close>.
  \<^verbatim>\<open>slice(-999)\<close> starts at \<open>max (length - 999) 0\<close>, which is the truncated
  subtraction of \<open>nat\<close>.
\<close>

definition BuildChallengePage_append :: "'a list \<Rightarrow> 'a \<Rightarrow> 'a list" where
  "BuildChallengePage_append prev newLog = drop (length prev - 999) prev @ [newLog]"

fun BuildChallengePage_run :: "'a list \<Rightarrow> 'a list \<Rightarrow> 'a list" where
  "BuildChallengePage_run logs [] = logs"
| "BuildChallengePage_run logs (newLog # newLogs) =
     BuildChallengePage_run (BuildChallengePage_append logs newLog) newLogs"

section \<open>useDebouncedValue\<close>

text \<open>
  \<^verbatim>\<open>
  function useDebouncedValue<T>(value: T, delayMs: number) {
    const [debounced, setDebounced] = useState(value);
    useEffect(() => {
      const t = window.setTimeout(() => setDebounced(value), delayMs);
      return () => window.clearTimeout(t);
    }, [value, delayMs]);
    return debounced;
  }\<close>
  The state of one hook instance: the cell \<open>debounced\<close>, the dependencies of the last
  effect run, the timer id its cleanup closure holds, and the browser's pending timers
  (id, deadline in ms, captured value). \<open>setDebounced_calls\<close> logs every call of
  \<^verbatim>\<open>setDebounced\<close> with the time it ran at. Time is in whole milliseconds.
\<close>

record 'a debounce =
  debounced :: 'a
  deps :: "'a \<times> nat"
  cleanup_t :: nat
  timers :: "(nat \<times> nat \<times> 'a) list"
  next_t :: nat
  setDebounced_calls :: "(nat \<times> 'a) list"

definition setTimeout :: "'a debounce \<Rightarrow> 'a \<Rightarrow> nat \<Rightarrow> nat \<Rightarrow> 'a debounce" where
  "setTimeout st v delayMs now =
     st\<lparr>timers := timers st @ [(next_t st, now + delayMs, v)], next_t := next_t st + 1\<rparr>"

definition clearTimeout :: "'a debounce \<Rightarrow> nat \<Rightarrow> 'a debounce" where
  "clearTimeout st t = st\<lparr>timers := filter (\<lambda>(i, d, v). i \<noteq> t) (timers st)\<rparr>"

text \<open>The effect body: it sets the timer and keeps its id for the cleanup.\<close>

definition debounce_effect :: "'a debounce \<Rightarrow> 'a \<Rightarrow> nat \<Rightarrow> nat \<Rightarrow> 'a debounce" where
  "debounce_effect st v delayMs now =
     (setTimeout st v delayMs now)\<lparr>cleanup_t := next_t st, deps := (v, delayMs)\<rparr>"

definition useDebouncedValue_mount :: "'a \<Rightarrow> nat \<Rightarrow> nat \<Rightarrow> 'a debounce" where
  "useDebouncedValue_mount v delayMs now =
     debounce_effect \<lparr>debounced = v, deps = (v, delayMs), cleanup_t = 0, timers = [],
       next_t = 0, setDebounced_calls = []\<rparr> v delayMs now"

text \<open>
  A later render with the arguments \<open>v\<close> and \<open>delayMs\<close>: when a dependency changed, the
  cleanup of the previous effect runs, then the effect.
\<close>

definition useDebouncedValue_render :: "'a debounce \<Rightarrow> 'a \<Rightarrow> nat \<Rightarrow> nat \<Rightarrow> 'a debounce" where
  "useDebouncedValue_render st v delayMs now =
     (if (v, delayMs) = deps st then st
      else debounce_effect (clearTimeout st (cleanup_t st)) v delayMs now)"

text \<open>
  Time passes up to \<open>now\<close>: the pending timers whose deadline has come run, earliest
  deadline first, each calling \<^verbatim>\<open>setDebounced\<close> with its captured value.
\<close>

definition timer_callback :: "'a debounce \<Rightarrow> nat \<times> nat \<times> 'a \<Rightarrow> 'a debounce" where
  "timer_callback st tm =
     (case tm of (i, d, v) \<Rightarrow>
        st\<lparr>debounced := v, setDebounced_calls := setDebounced_calls st @ [(d, v)]\<rparr>)"

definition elapse :: "'a debounce \<Rightarrow> nat \<Rightarrow> 'a debounce" where
  "elapse st now =
     foldl timer_callback
       (st\<lparr>timers := filter (\<lambda>(i, d, v). \<not> d \<le> now) (timers st)\<rparr>)
       (sort_key (\<lambda>(i, d, v). d) (filter (\<lambda>(i, d, v). d \<le> now) (timers st)))"

text \<open>A timed sequence of edits \<open>(time, new value)\<close> under the delay \<open>delayMs\<close>.\<close>

fun debounce_run :: "nat \<Rightarrow> 'a debounce \<Rightarrow> (nat \<times> 'a) list \<Rightarrow> 'a debounce" where
  "debounce_run delayMs st [] = st"
| "debounce_run delayMs st ((t, v) # edits) =
     debounce_run delayMs (useDebouncedValue_render (elapse st t) v delayMs t) edits"

text \<open>
  The edit sequence of the debounce scenario: \<^verbatim>\<open>"a"\<close> at \<open>t0\<close>, \<^verbatim>\<open>"ab"\<close> 50 ms
  later, \<^verbatim>\<open>"abc"\<close> 50 ms after that.
\<close>

definition abc_edits :: "nat \<Rightarrow> (nat \<times> jsstring) list" where
  "abc_edits t0 = [(t0, utf16 ''a''), (t0 + 50, utf16 ''ab''), (t0 + 100, utf16 ''abc'')]"

section \<open>useAsyncMemo\<close>

text \<open>
  Values a promise can reject with: a \<^verbatim>\<open>DOMException\<close> with its name, or anything
  else. \<^verbatim>\<open>isAbortError(err)\<close> is
  \<^verbatim>\<open>err instanceof DOMException && err.name === "AbortError"\<close>.
\<close>

datatype err = DOMException string | OtherError string

fun isAbortError :: "err \<Rightarrow> bool" where
  "isAbortError (DOMException name) = (name = ''AbortError'')"
| "isAbortError (OtherError msg) = False"

datatype 'a outcome = Fulfilled 'a | Rejected err

text \<open>
  The state of one \<^verbatim>\<open>useAsyncMemo\<close> instance: the cells \<^verbatim>\<open>value\<close> (\<open>value_st\<close>),
  \<^verbatim>\<open>loading\<close> and \<^verbatim>\<open>error\<close> (\<open>None\<close> is \<^verbatim>\<open>null\<close>), and the store of
  \<^verbatim>\<open>AbortController\<close> objects: the controller allocated \<open>c\<close>-th has the flag
  \<open>signals ! c\<close> (\<^verbatim>\<open>controller.signal.aborted\<close>). \<open>controller\<close> is the one the
  cleanup closure of the last effect run holds.
\<close>

record 'a asyncMemo =
  value_st :: 'a
  loading :: bool
  error :: "err option"
  signals :: "bool list"
  controller :: nat

definition signal_aborted :: "'a asyncMemo \<Rightarrow> nat \<Rightarrow> bool" where
  "signal_aborted st c = (c < length (signals st) \<and> signals st ! c)"

text \<open>
  The effect body up to the call of the factory:
  \<^verbatim>\<open>const controller = new AbortController(); setLoading(true); setError(null);\<close>
  and the cleanup \<^verbatim>\<open>() => controller.abort()\<close>.
\<close>

definition asyncMemo_effect :: "'a asyncMemo \<Rightarrow> 'a asyncMemo" where
  "asyncMemo_effect st =
     st\<lparr>controller := length (signals st), signals := signals st @ [False],
        loading := True, error := None\<rparr>"

definition asyncMemo_cleanup :: "'a asyncMemo \<Rightarrow> 'a asyncMemo" where
  "asyncMemo_cleanup st = st\<lparr>signals := (signals st)[controller st := True]\<rparr>"

definition useAsyncMemo_mount :: "'a \<Rightarrow> 'a asyncMemo" where
  "useAsyncMemo_mount initialValue =
     asyncMemo_effect \<lparr>value_st = initialValue, loading = False, error = None,
       signals = [], controller = 0\<rparr>"

text \<open>A render with changed \<open>deps\<close>: the previous cleanup, then the effect.\<close>

definition useAsyncMemo_deps_changed :: "'a asyncMemo \<Rightarrow> 'a asyncMemo" where
  "useAsyncMemo_deps_changed st = asyncMemo_effect (asyncMemo_cleanup st)"

text \<open>
  The three handlers chained onto the factory's promise by the effect that allocated
  controller \<open>c\<close>:
  \<^verbatim>\<open>
  .then((next) => { if (!controller.signal.aborted) setValue(next); })
  .catch((err) => { if (!isAbortError(err)) setError(err); })
  .finally(() => { if (!controller.signal.aborted) setLoading(false); })\<close>
\<close>

definition on_then :: "'a asyncMemo \<Rightarrow> nat \<Rightarrow> 'a \<Rightarrow> 'a asyncMemo" where
  "on_then st c next = (if \<not> signal_aborted st c then st\<lparr>value_st := next\<rparr> else st)"

definition on_catch :: "'a asyncMemo \<Rightarrow> err \<Rightarrow> 'a asyncMemo" where
  "on_catch st e = (if \<not> isAbortError e then st\<lparr>error := Some e\<rparr> else st)"

definition on_finally :: "'a asyncMemo \<Rightarrow> nat \<Rightarrow> 'a asyncMemo" where
  "on_finally st c = (if \<not> signal_aborted st c then st\<lparr>loading := False\<rparr> else st)"

text \<open>The promise of the effect with controller \<open>c\<close> settles.\<close>

fun settle :: "'a asyncMemo \<Rightarrow> nat \<Rightarrow> 'a outcome \<Rightarrow> 'a asyncMemo" where
  "settle st c (Fulfilled next) = on_finally (on_then st c next) c"
| "settle st c (Rejected e) = on_finally (on_catch st e) c"

section \<open>EventViewer\<close>

datatype EventType = click | navigation | error_type | api

text \<open>\<^verbatim>\<open>interface Event { id; type; timestamp; message }\<close>\<close>

record Event =
  event_id :: jsstring
  event_type :: EventType
  timestamp :: int
  event_message :: jsstring

text \<open>
  \<^verbatim>\<open>applyFilterAsync\<close>; the filter value \<^verbatim>\<open>"all"\<close> is \<open>None\<close>. The function
  awaits \<^verbatim>\<open>delay(50, signal)\<close>, which rejects with a \<^verbatim>\<open>DOMException\<close> named
  \<^verbatim>\<open>AbortError\<close> when the signal is aborted before the 50 ms are over, and then
  returns the filtered list. \<open>aborted\<close> says whether the abort came first.
\<close>

definition applyFilter :: "Event list \<Rightarrow> EventType option \<Rightarrow> Event list" where
  "applyFilter eventsList filterValue =
     (case filterValue of None \<Rightarrow> eventsList
      | Some t \<Rightarrow> filter (\<lambda>e. event_type e = t) eventsList)"

definition applyFilterAsync :: "Event list \<Rightarrow> EventType option \<Rightarrow> bool \<Rightarrow> Event list outcome" where
  "applyFilterAsync eventsList filterValue aborted =
     (if aborted then Rejected (DOMException ''AbortError'')
      else Fulfilled (applyFilter eventsList filterValue))"

text \<open>A sample event.\<close>

definition demo_event :: "string \<Rightarrow> Event" where
  "demo_event s = \<lparr>event_id = utf16 s, event_type = click, timestamp = 0, event_message = utf16 s\<rparr>"

text \<open>
  What \<^verbatim>\<open>JSON.parse\<close> can return: any JSON value. The annotation in
  \<^verbatim>\<open>const event: Event = JSON.parse(evt.data)\<close> is erased when the code runs, so
  the handler stores and passes on whatever value the parser returned.
\<close>

datatype json =
  JNull | JBool bool | JNumber real | JString jsstring | JArray "json list"
  | JObject "(jsstring \<times> json) list"

text \<open>
  The values that have the shape of \<^verbatim>\<open>interface Event\<close>: an object with a string
  \<^verbatim>\<open>id\<close>, a \<^verbatim>\<open>type\<close> among the four event types, a number
  \<^verbatim>\<open>timestamp\<close> and a string \<^verbatim>\<open>message\<close>; and the payloads that parse as
  such a record.
\<close>

fun is_JString :: "json \<Rightarrow> bool" where
  "is_JString (JString x) = True"
| "is_JString v = False"

fun is_JNumber :: "json \<Rightarrow> bool" where
  "is_JNumber (JNumber x) = True"
| "is_JNumber v = False"

definition is_event_type :: "json \<Rightarrow> bool" where
  "is_event_type v =
     (v \<in> set [JString (utf16 ''click''), JString (utf16 ''navigation''),
                JString (utf16 ''error''), JString (utf16 ''api'')])"

definition has_field :: "(jsstring \<times> json) list \<Rightarrow> string \<Rightarrow> (json \<Rightarrow> bool) \<Rightarrow> bool" where
  "has_field members k ok = (case map_of members (utf16 k) of None \<Rightarrow> False | Some v \<Rightarrow> ok v)"

fun is_Event :: "json \<Rightarrow> bool" where
  "is_Event (JObject members) =
     (has_field members ''id'' is_JString \<and> has_field members ''type'' is_event_type \<and>
      has_field members ''timestamp'' is_JNumber \<and> has_field members ''message'' is_JString)"
| "is_Event v = False"

definition parses_as_record :: "(jsstring \<Rightarrow> json option) \<Rightarrow> jsstring \<Rightarrow> bool" where
  "parses_as_record JSON_parse data =
     (case JSON_parse data of None \<Rightarrow> False | Some v \<Rightarrow> is_Event v)"

text \<open>
  A consumer callback \<^verbatim>\<open>onEventReceived\<close>: a function of the consumer, known here by
  a name and by whether it throws on a given argument.
\<close>

datatype callback = Callback (cb_name: nat) (cb_throws: "json \<Rightarrow> bool")

text \<open>
  The component state the stream touches: the cell \<^verbatim>\<open>events\<close>; the props
  \<^verbatim>\<open>onEventReceived\<close> (\<open>None\<close> is \<^verbatim>\<open>undefined\<close>) and \<^verbatim>\<open>mockStarted\<close> of
  the latest render; the ref of \<^verbatim>\<open>useLatestRef(onEventReceived)\<close>;
  \<open>effect_mockStarted\<close>, the value of \<^verbatim>\<open>mockStarted\<close> the connection effect last
  ran with; whether the socket's \<^verbatim>\<open>onmessage\<close> is set; the cell
  \<^verbatim>\<open>isConnected\<close>; and \<open>invoked\<close>, the log of consumer callback invocations
  (callback name and argument).
\<close>

record EventViewer =
  events :: "json list"
  onEventReceived :: "callback option"
  onEventReceivedRef :: "callback option"
  mockStarted :: bool
  effect_mockStarted :: bool
  onmessage_set :: bool
  isConnected :: bool
  invoked :: "(nat \<times> json) list"

text \<open>
  The first render, before its effects: \<^verbatim>\<open>useRef(value)\<close> starts the ref at the
  callback of that render, and no socket exists yet (an effect that has run with
  \<^verbatim>\<open>mockStarted\<close> false has done nothing either: \<^verbatim>\<open>if (!mockStarted) return;\<close>).
\<close>

definition EventViewer_mount :: "callback option \<Rightarrow> bool \<Rightarrow> EventViewer" where
  "EventViewer_mount cb started =
     \<lparr>events = [], onEventReceived = cb, onEventReceivedRef = cb, mockStarted = started,
      effect_mockStarted = False, onmessage_set = False, isConnected = False, invoked = []\<rparr>"

text \<open>
  The passive effects of the latest render, which run some time after the render has
  committed. \<^verbatim>\<open>useLatestRef\<close>:
  \<^verbatim>\<open>useEffect(() => { ref.current = value; }, [value]);\<close>
  and the connection effect, with the dependencies
  \<^verbatim>\<open>[onEventReceivedRef, mockStarted]\<close>, of which only \<^verbatim>\<open>mockStarted\<close> can
  change (the ref object is the same in every render): it opens the socket and sets its
  handlers when \<^verbatim>\<open>mockStarted\<close> is true, and its cleanup clears the three handlers
  before it closes the socket.
\<close>

definition EventViewer_effects :: "EventViewer \<Rightarrow> EventViewer" where
  "EventViewer_effects st =
     (let st1 = st\<lparr>onEventReceivedRef := onEventReceived st\<rparr>
      in if mockStarted st1 = effect_mockStarted st1 then st1
         else st1\<lparr>effect_mockStarted := mockStarted st1, onmessage_set := mockStarted st1\<rparr>)"

text \<open>
  A later render with the props \<open>cb\<close> and \<open>started\<close> commits. The effects of the
  previous render that are still pending run before it; its own effects are pending
  from then on.
\<close>

definition EventViewer_render :: "EventViewer \<Rightarrow> callback option \<Rightarrow> bool \<Rightarrow> EventViewer" where
  "EventViewer_render st cb started =
     (EventViewer_effects st)\<lparr>onEventReceived := cb, mockStarted := started\<rparr>"

datatype exn = SyntaxError | CallbackThrew

text \<open>
  The \<^verbatim>\<open>try\<close> block of \<^verbatim>\<open>ws.onmessage\<close>, with the state it leaves and the
  exception it ends with, if any. \<open>JSON_parse\<close> is \<^verbatim>\<open>JSON.parse\<close>; \<open>None\<close> is
  its \<^verbatim>\<open>SyntaxError\<close>.
  \<^verbatim>\<open>
  const event: Event = JSON.parse(evt.data);
  setEvents((prev) => [...prev, event]);
  onEventReceivedRef.current?.(event);\<close>
\<close>

definition onmessage_try ::
  "(jsstring \<Rightarrow> json option) \<Rightarrow> EventViewer \<Rightarrow> jsstring \<Rightarrow> EventViewer \<times> exn option" where
  "onmessage_try JSON_parse st data =
     (case JSON_parse data of
        None \<Rightarrow> (st, Some SyntaxError)
      | Some event \<Rightarrow>
          (let st1 = st\<lparr>events := events st @ [event]\<rparr>
           in case onEventReceivedRef st1 of
                None \<Rightarrow> (st1, None)
              | Some cb \<Rightarrow>
                  (let st2 = st1\<lparr>invoked := invoked st1 @ [(cb_name cb, event)]\<rparr>
                   in if cb_throws cb event then (st2, Some CallbackThrew) else (st2, None))))"

text \<open>\<^verbatim>\<open>ws.onmessage\<close>: the \<^verbatim>\<open>try\<close> block under \<^verbatim>\<open>catch { }\<close>.\<close>

definition ws_onmessage ::
  "(jsstring \<Rightarrow> json option) \<Rightarrow> EventViewer \<Rightarrow> jsstring \<Rightarrow> EventViewer \<times> exn option" where
  "ws_onmessage JSON_parse st data =
     (case onmessage_try JSON_parse st data of (st', thrown) \<Rightarrow> (st', None))"

text \<open>The socket delivers a message: \<^verbatim>\<open>this.onmessage?.(messageEvent)\<close>.\<close>

definition deliver :: "(jsstring \<Rightarrow> json option) \<Rightarrow> EventViewer \<Rightarrow> jsstring \<Rightarrow> EventViewer" where
  "deliver JSON_parse st data =
     (if onmessage_set st then fst (ws_onmessage JSON_parse st data) else st)"

text \<open>
  The stream is connected: \<^verbatim>\<open>mockStarted\<close> is true, the connection effect has run
  with it, and the handler is set.
\<close>

definition connected :: "EventViewer \<Rightarrow> bool" where
  "connected st = (onmessage_set st \<and> mockStarted st \<and> effect_mockStarted st)"

text \<open>
  A history of the mounted component: renders with a (possibly new) callback prop and
  unchanged \<^verbatim>\<open>mockStarted\<close>, runs of the pending effects, and messages of the socket.
\<close>

datatype step = Render "callback option" | Effects | Message jsstring

fun EventViewer_run :: "(jsstring \<Rightarrow> json option) \<Rightarrow> EventViewer \<Rightarrow> step list \<Rightarrow> EventViewer" where
  "EventViewer_run JSON_parse st [] = st"
| "EventViewer_run JSON_parse st (Render cb # steps) =
     EventViewer_run JSON_parse (EventViewer_render st cb (mockStarted st)) steps"
| "EventViewer_run JSON_parse st (Effects # steps) =
     EventViewer_run JSON_parse (EventViewer_effects st) steps"
| "EventViewer_run JSON_parse st (Message data # steps) =
     EventViewer_run JSON_parse (deliver JSON_parse st data) steps"

text \<open>The values a history admits: what the parser returns for its messages, in order.\<close>

fun admitted :: "(jsstring \<Rightarrow> json option) \<Rightarrow> step list \<Rightarrow> json list" where
  "admitted JSON_parse [] = []"
| "admitted JSON_parse (Render cb # steps) = admitted JSON_parse steps"
| "admitted JSON_parse (Effects # steps) = admitted JSON_parse steps"
| "admitted JSON_parse (Message data # steps) =
     (case JSON_parse data of None \<Rightarrow> [] | Some v \<Rightarrow> [v]) @ admitted JSON_parse steps"

text \<open>A history in which every render supplies a callback.\<close>

fun callback_defined :: "step \<Rightarrow> bool" where
  "callback_defined (Render None) = False"
| "callback_defined s = True"

text \<open>
  Concrete inputs. A record payload and the value \<^verbatim>\<open>JSON.parse\<close> returns for it;
  \<^verbatim>\<open>JSON.parse\<close> on the four payloads used below (it accepts the record,
  \<^verbatim>\<open>null\<close> and \<^verbatim>\<open>42\<close>, and throws on \<^verbatim>\<open>{bad\<close>); two consumer callbacks,
  the second of which throws; and a viewer connected under the first callback, with no
  effect pending.
\<close>

definition payload_e1 :: jsstring where
  "payload_e1 = utf16 ''{\"id\":\"e1\",\"type\":\"click\",\"timestamp\":0,\"message\":\"hello\"}''"

definition event_e1 :: json where
  "event_e1 = JObject [(utf16 ''id'', JString (utf16 ''e1'')),
     (utf16 ''type'', JString (utf16 ''click'')), (utf16 ''timestamp'', JNumber 0),
     (utf16 ''message'', JString (utf16 ''hello''))]"

definition demo_parse :: "jsstring \<Rightarrow> json option" where
  "demo_parse data =
     (if data = payload_e1 then Some event_e1
      else if data = utf16 ''null'' then Some JNull
      else if data = utf16 ''42'' then Some (JNumber 42)
      else None)"

definition cb_first :: callback where
  "cb_first = Callback 1 (\<lambda>v. False)"

definition cb_second :: callback where
  "cb_second = Callback 2 (\<lambda>v. True)"

definition connected_viewer :: EventViewer where
  "connected_viewer = EventViewer_effects (EventViewer_mount (Some cb_first) True)"

section \<open>LogStreamViewer: following the latest record\<close>

text \<open>
  \<^verbatim>\<open>type ListOnScrollProps = { scrollOffset: number; scrollUpdateWasRequested: boolean }\<close>,
  the argument the list passes to \<^verbatim>\<open>onScroll\<close>. Pixel quantities are numbers,
  modelled as reals.
\<close>

record ListOnScrollProps =
  scrollOffset :: real
  scrollUpdateWasRequested :: bool

datatype align = align_end

text \<open>
  The viewer state that the follow logic reads and writes: the cells
  \<^verbatim>\<open>autoFollowEnabled\<close> and \<^verbatim>\<open>atBottom\<close>, \<^verbatim>\<open>itemCount\<close> (the length of
  \<^verbatim>\<open>filteredIndices\<close>), the props \<^verbatim>\<open>rowHeight\<close> and \<^verbatim>\<open>height\<close>, the
  dependencies \<^verbatim>\<open>[effectiveFollow, itemCount]\<close> of the last run of the layout effect,
  and \<open>scrollToItem_calls\<close>, the log of \<^verbatim>\<open>listRef.current.scrollToItem\<close> calls.
\<close>

record viewer =
  autoFollowEnabled :: bool
  atBottom :: bool
  itemCount :: nat
  rowHeight :: real
  height :: real
  layout_deps :: "bool \<times> nat"
  scrollToItem_calls :: "(nat \<times> align) list"

text \<open>
  \<^verbatim>\<open>
  const onScroll = useCallback(({ scrollOffset, scrollUpdateWasRequested }) => {
    if (scrollUpdateWasRequested) return;
    const total = itemCount * rowHeight;
    const maxOffset = Math.max(0, total - height);
    const threshold = rowHeight * 2;
    setAtBottom(scrollOffset >= maxOffset - threshold);
  }, ...);\<close>
\<close>

definition onScroll :: "viewer \<Rightarrow> ListOnScrollProps \<Rightarrow> viewer" where
  "onScroll st props =
     (if scrollUpdateWasRequested props then st
      else
        (let total = real (itemCount st) * rowHeight st;
             maxOffset = max 0 (total - height st);
             threshold = rowHeight st * 2
         in st\<lparr>atBottom := (scrollOffset props \<ge> maxOffset - threshold)\<rparr>))"

text \<open>\<^verbatim>\<open>const effectiveFollow = autoFollowEnabled && atBottom;\<close>\<close>

definition effectiveFollow :: "viewer \<Rightarrow> bool" where
  "effectiveFollow st = (autoFollowEnabled st \<and> atBottom st)"

text \<open>
  The body of the layout effect:
  \<^verbatim>\<open>
  if (!effectiveFollow) return;
  if (itemCount <= 0) return;
  listRef.current?.scrollToItem(itemCount - 1, "end");\<close>
\<close>

definition layoutEffect :: "viewer \<Rightarrow> viewer" where
  "layoutEffect st =
     (if \<not> effectiveFollow st then st
      else if itemCount st \<le> 0 then st
      else st\<lparr>scrollToItem_calls := scrollToItem_calls st @ [(itemCount st - 1, align_end)]\<rparr>)"

text \<open>
  A render commits: the layout effect runs when \<^verbatim>\<open>[effectiveFollow, itemCount]\<close>
  differ from the dependencies of its last run.
\<close>

definition commit :: "viewer \<Rightarrow> viewer" where
  "commit st =
     (if layout_deps st = (effectiveFollow st, itemCount st) then st
      else (layoutEffect st)\<lparr>layout_deps := (effectiveFollow st, itemCount st)\<rparr>)"

definition viewer_mount :: "nat \<Rightarrow> real \<Rightarrow> real \<Rightarrow> viewer" where
  "viewer_mount n rh h =
     (let st = \<lparr>autoFollowEnabled = True, atBottom = True, itemCount = n, rowHeight = rh,
                height = h, layout_deps = (True, n), scrollToItem_calls = []\<rparr>
      in layoutEffect st)"

text \<open>The visible index set changes to length \<open>n\<close> and the viewer renders.\<close>

definition itemCount_changes :: "viewer \<Rightarrow> nat \<Rightarrow> viewer" where
  "itemCount_changes st n = commit (st\<lparr>itemCount := n\<rparr>)"

text \<open>A scroll event of the list, then the render it causes.\<close>

definition scroll_event :: "viewer \<Rightarrow> ListOnScrollProps \<Rightarrow> viewer" where
  "scroll_event st props = commit (onScroll st props)"

text \<open>
  \<^verbatim>\<open>
  const jumpToLatest = useCallback(() => {
    if (itemCount <= 0) return;
    listRef.current?.scrollToItem(itemCount - 1, "end");
  }, [itemCount]);\<close>
\<close>

definition jumpToLatest :: "viewer \<Rightarrow> viewer" where
  "jumpToLatest st =
     (if itemCount st \<le> 0 then st
      else st\<lparr>scrollToItem_calls := scrollToItem_calls st @ [(itemCount st - 1, align_end)]\<rparr>)"

text \<open>
  A viewer of 100 rows of 24 px in a window of 520 px (maximal offset 1880) whose user
  has scrolled to the top.
\<close>

definition unpinned_viewer :: viewer where
  "unpinned_viewer =
     scroll_event (viewer_mount 100 24 520) \<lparr>scrollOffset = 0, scrollUpdateWasRequested = False\<rparr>"

section \<open>Properties of the filter\<close>

lemma strip_end_keeps_start:
  assumes "dropWhile P u = u"
  shows "dropWhile P (rev (dropWhile P (rev u))) = rev (dropWhile P (rev u))"
  using assms
  by (metis dropWhile_eq_Nil_conv dropWhile_last last_rev Nil_is_rev_conv rev_swap
      dropWhile_eq_self_iff)

lemma trim_idem: "trim (trim s) = trim s"
proof -
  have lead: "dropWhile isWhiteSpace (trim s) = trim s"
    unfolding trim_def by (rule strip_end_keeps_start) (simp add: dropWhile_idem)
  have trail: "dropWhile isWhiteSpace (rev (trim s)) = rev (trim s)"
    unfolding trim_def by (simp add: dropWhile_idem)
  have "trim (trim s) = rev (dropWhile isWhiteSpace (rev (dropWhile isWhiteSpace (trim s))))"
    by (simp add: trim_def)
  also have "\<dots> = rev (dropWhile isWhiteSpace (rev (trim s)))"
    by (simp only: lead)
  also have "\<dots> = trim s"
    by (simp only: trail rev_rev_ident)
  finally show ?thesis .
qed

lemma trim_whitespace_only: "list_all isWhiteSpace s \<Longrightarrow> trim s = []"
proof -
  assume "list_all isWhiteSpace s"
  then have h: "dropWhile isWhiteSpace s = []"
    by (simp only: dropWhile_eq_Nil_conv list_all_iff)
  show ?thesis unfolding trim_def h by simp
qed

lemma filteredIndices_loop_eq:
  "filteredIndices_loop logs enabledLevels q useQuery i out =
     out @ filter (\<lambda>k. enabledLevels (level (logs ! k)) \<and>
                        (\<not> useQuery \<or> str_includes (lc (logs ! k)) q)) [i..<length logs]"
proof (induction logs enabledLevels q useQuery i out rule: filteredIndices_loop.induct)
  case (1 logs enabledLevels q useQuery i out)
  show ?case
  proof (cases "i < length logs")
    case False
    then show ?thesis
      by (simp add: filteredIndices_loop.simps [of logs enabledLevels q useQuery i out])
  next
    case True
    then have split: "[i..<length logs] = i # [i + 1..<length logs]"
      by (simp add: upt_conv_Cons)
    show ?thesis
      using True "1.IH"
      by (subst filteredIndices_loop.simps) (auto simp: split)
  qed
qed

lemma filteredIndices_filter:
  "filteredIndices logs enabledLevels q =
     filter (\<lambda>i. enabledLevels (level (logs ! i)) \<and>
                  (q = [] \<or> (\<exists>ps ss. lc (logs ! i) = ps @ q @ ss))) [0..<length logs]"
  by (simp add: filteredIndices_def filteredIndices_loop_eq str_includes_def sublist_def)

lemma sorted_wrt_filter_upt: "sorted_wrt (<) (filter P [i..<j])"
  by (rule sorted_wrt_filter) simp


text \<open>
  Claim C1, as the specification words it, reads the test on the query text of the filter
  state: the lowercase message contains the lowercase query. The viewer trims the query
  first. At the scenario buffer with every level enabled and the query \<^verbatim>\<open>" Info"\<close>
  the viewer shows the positions 0 and 2, while only the record at position 2 contains
  \<^verbatim>\<open>" info"\<close> with its leading blank.
\<close>

theorem query_text_not_trimmed_counterexample:
  "filteredIndices demoLogs enabledLevels_initial
     (debouncedSearchLc asciiLower (utf16 '' Info'')) = [0, 2]
   \<and> spec_filteredIndices asciiLower demoLogs enabledLevels_initial (utf16 '' Info'') = [2]"
proof -
  have a: "filteredIndices demoLogs enabledLevels_initial
     (debouncedSearchLc asciiLower (utf16 '' Info'')) = [0, 2]"
    by (simp add: filteredIndices_def filteredIndices_loop.simps demoLogs_def mkLogEntry_def
        debouncedSearchLc_def trim_def isWhiteSpace_def asciiLower_def utf16_def
        str_includes_def sublist_code enabledLevels_initial_def)
  have b: "spec_filteredIndices asciiLower demoLogs enabledLevels_initial (utf16 '' Info'') = [2]"
    by (simp add: spec_filteredIndices_def demoLogs_def mkLogEntry_def upt_rec
        asciiLower_def utf16_def str_includes_def sublist_code enabledLevels_initial_def)
  from a b show ?thesis by (rule conjI)
qed

text \<open>
  Claim C1, amended: the query of the test is the trimmed query. For every buffer
  \<open>logs\<close>, every enabled-level map and every query text, the visible index set, which
  is \<^const>\<open>filteredIndices\<close> at \<^const>\<open>debouncedSearchLc\<close> of the query text, is
  exactly the list of positions \<open>i\<close> whose record has an enabled level and, unless the
  lowercased trimmed query is empty, whose lowercase projection \<^verbatim>\<open>_lc\<close> contains the
  lowercased trimmed query as a substring; the positions are strictly ascending. For
  records that carry \<^verbatim>\<open>_lc = message.toLowerCase()\<close>, as every record the repository
  builds does, the test is on the lowercase message; and then, \<^verbatim>\<open>toLowerCase\<close>
  giving the empty string for the empty string only, the visible index set is the one the
  specification words, taken at the trimmed query. For a buffer with the levels
  \<open>[INFO, ERROR, INFO, WARN, ERROR]\<close>, only \<open>ERROR\<close> enabled and the empty query, the
  result is \<open>[1, 4]\<close>.
\<close>

theorem filteredIndices_trimmed_query:
  "filteredIndices logs enabledLevels (debouncedSearchLc toLowerCase query) =
     filter (\<lambda>i. enabledLevels (level (logs ! i)) \<and>
                  (toLowerCase (trim query) = [] \<or>
                   (\<exists>ps ss. lc (logs ! i) = ps @ toLowerCase (trim query) @ ss)))
       [0..<length logs]
   \<and> sorted_wrt (<) (filteredIndices logs enabledLevels (debouncedSearchLc toLowerCase query))
   \<and> (map lc logs = map (\<lambda>l. toLowerCase (message l)) logs \<longrightarrow>
        filteredIndices logs enabledLevels (debouncedSearchLc toLowerCase query) =
          filter (\<lambda>i. enabledLevels (level (logs ! i)) \<and>
                       (toLowerCase (trim query) = [] \<or>
                        (\<exists>ps ss. toLowerCase (message (logs ! i)) =
                                    ps @ toLowerCase (trim query) @ ss)))
            [0..<length logs])
   \<and> (map lc logs = map (\<lambda>l. toLowerCase (message l)) logs \<and>
        (\<forall>x. (toLowerCase x = []) = (x = [])) \<longrightarrow>
        filteredIndices logs enabledLevels (debouncedSearchLc toLowerCase query) =
          spec_filteredIndices toLowerCase logs enabledLevels (trim query))
   \<and> (map level logs = [INFO, ERROR, INFO, WARN, ERROR] \<and> toLowerCase [] = [] \<longrightarrow>
        filteredIndices logs (\<lambda>l. l = ERROR) (debouncedSearchLc toLowerCase []) = [1, 4])"
proof -
  let ?q = "toLowerCase (trim query)"
  have p1: "filteredIndices logs enabledLevels (debouncedSearchLc toLowerCase query) =
     filter (\<lambda>i. enabledLevels (level (logs ! i)) \<and>
                  (?q = [] \<or> (\<exists>ps ss. lc (logs ! i) = ps @ ?q @ ss))) [0..<length logs]"
    unfolding debouncedSearchLc_def by (rule filteredIndices_filter)
  have p2: "sorted_wrt (<) (filteredIndices logs enabledLevels (debouncedSearchLc toLowerCase query))"
    unfolding filteredIndices_filter by (rule sorted_wrt_filter_upt)
  have p3: "filteredIndices logs enabledLevels (debouncedSearchLc toLowerCase query) =
          filter (\<lambda>i. enabledLevels (level (logs ! i)) \<and>
                       (?q = [] \<or> (\<exists>ps ss. toLowerCase (message (logs ! i)) = ps @ ?q @ ss)))
            [0..<length logs]"
    if a: "map lc logs = map (\<lambda>l. toLowerCase (message l)) logs"
  proof -
    have "lc (logs ! i) = toLowerCase (message (logs ! i))" if "i < length logs" for i
      using that nth_map [of i logs lc] nth_map [of i logs "\<lambda>l. toLowerCase (message l)"] a
      by simp
    then show ?thesis
      unfolding p1 by (intro filter_cong refl) simp
  qed
  have p4: "filteredIndices logs enabledLevels (debouncedSearchLc toLowerCase query) =
          spec_filteredIndices toLowerCase logs enabledLevels (trim query)"
    if a: "map lc logs = map (\<lambda>l. toLowerCase (message l)) logs \<and>
           (\<forall>x. (toLowerCase x = []) = (x = []))"
  proof -
    from a have e: "(?q = []) = (trim query = [])" by simp
    from a have "filteredIndices logs enabledLevels (debouncedSearchLc toLowerCase query) =
          filter (\<lambda>i. enabledLevels (level (logs ! i)) \<and>
                       (?q = [] \<or> (\<exists>ps ss. toLowerCase (message (logs ! i)) = ps @ ?q @ ss)))
            [0..<length logs]"
      by (simp only: p3)
    then show ?thesis
      by (simp add: spec_filteredIndices_def str_includes_def sublist_def e)
  qed
  have p5: "filteredIndices logs (\<lambda>l. l = ERROR) (debouncedSearchLc toLowerCase []) = [1, 4]"
    if a: "map level logs = [INFO, ERROR, INFO, WARN, ERROR] \<and> toLowerCase [] = []"
  proof -
    from a have len: "length logs = 5"
      using length_map [of level logs] by simp
    have lv: "level (logs ! i) = [INFO, ERROR, INFO, WARN, ERROR] ! i" if "i < 5" for i
      using that nth_map [of i logs level] a len by simp
    have upt5: "[0..<5] = [0, 1, 2, 3, 4::nat]"
      by (simp add: upt_rec)
    from a have q: "debouncedSearchLc toLowerCase [] = []"
      by (simp add: debouncedSearchLc_def trim_def)
    show ?thesis
      unfolding q filteredIndices_filter len upt5
      using lv [of 0] lv [of 1] lv [of 2] lv [of 3] lv [of 4] by simp
  qed
  from p1 p2 p3 p4 p5 show ?thesis by blast
qed

text \<open>
  The theorem at the scenario buffer, with the empty query, with a query of surrounding
  blanks and capitals, and with an upper-case query.
\<close>

theorem filteredIndices_trimmed_query_witness:
  "map lc demoLogs = map (\<lambda>l. asciiLower (message l)) demoLogs
   \<and> (\<forall>x. (asciiLower x = []) = (x = []))
   \<and> map level demoLogs = [INFO, ERROR, INFO, WARN, ERROR]
   \<and> asciiLower [] = []
   \<and> filteredIndices demoLogs (\<lambda>l. l = ERROR) (debouncedSearchLc asciiLower []) = [1, 4]
   \<and> filteredIndices demoLogs enabledLevels_initial
        (debouncedSearchLc asciiLower (utf16 '' Info'')) =
       spec_filteredIndices asciiLower demoLogs enabledLevels_initial (utf16 ''Info'')
   \<and> spec_filteredIndices asciiLower demoLogs enabledLevels_initial (utf16 ''Info'') = [0, 2]
   \<and> filteredIndices demoLogs (\<lambda>l. l \<noteq> INFO)
        (debouncedSearchLc asciiLower (utf16 ''FAILED'')) = [1, 4]"
proof -
  have a: "map lc demoLogs = map (\<lambda>l. asciiLower (message l)) demoLogs"
    by (simp add: demoLogs_def mkLogEntry_def)
  have n: "\<forall>x. (asciiLower x = []) = (x = [])"
    by (simp add: asciiLower_def)
  have b: "map level demoLogs = [INFO, ERROR, INFO, WARN, ERROR]"
    by (simp add: demoLogs_def mkLogEntry_def)
  have z: "asciiLower [] = []"
    by (simp add: asciiLower_def)
  have t: "trim (utf16 '' Info'') = utf16 ''Info''"
    by (simp add: trim_def utf16_def isWhiteSpace_def)
  have c: "filteredIndices demoLogs (\<lambda>l. l = ERROR) (debouncedSearchLc asciiLower []) = [1, 4]"
    using filteredIndices_trimmed_query [of demoLogs "\<lambda>l. l = ERROR" asciiLower "[]"] b z
    by blast
  have "filteredIndices demoLogs enabledLevels_initial
        (debouncedSearchLc asciiLower (utf16 '' Info'')) =
       spec_filteredIndices asciiLower demoLogs enabledLevels_initial (trim (utf16 '' Info''))"
    using filteredIndices_trimmed_query
      [of demoLogs enabledLevels_initial asciiLower "utf16 '' Info''"] a n
    by blast
  then have d: "filteredIndices demoLogs enabledLevels_initial
        (debouncedSearchLc asciiLower (utf16 '' Info'')) =
       spec_filteredIndices asciiLower demoLogs enabledLevels_initial (utf16 ''Info'')"
    by (simp only: t)
  have e: "spec_filteredIndices asciiLower demoLogs enabledLevels_initial (utf16 ''Info'') = [0, 2]"
    by (simp add: spec_filteredIndices_def demoLogs_def mkLogEntry_def upt_rec
        asciiLower_def utf16_def str_includes_def sublist_code enabledLevels_initial_def)
  have f: "filteredIndices demoLogs (\<lambda>l. l \<noteq> INFO)
        (debouncedSearchLc asciiLower (utf16 ''FAILED'')) = [1, 4]"
    by (simp add: filteredIndices_def filteredIndices_loop.simps demoLogs_def mkLogEntry_def
        debouncedSearchLc_def trim_def isWhiteSpace_def asciiLower_def utf16_def
        str_includes_def sublist_code)
  from a n b z c d e f show ?thesis by blast
qed

text \<open>
  Claim C10. Filtering is invariant under leading and trailing whitespace of the query:
  the visible indices computed from the debounced search \<open>q\<close> are those computed from
  \<open>trim q\<close>. So a whitespace-only query filters like the empty query, and (since
  \<^verbatim>\<open>"".toLowerCase()\<close> is \<^verbatim>\<open>""\<close>) passes every record whose level is enabled.
\<close>

theorem trim_invariance:
  "filteredIndices logs enabledLevels (debouncedSearchLc toLowerCase q) =
     filteredIndices logs enabledLevels (debouncedSearchLc toLowerCase (trim q))
   \<and> (list_all isWhiteSpace q \<longrightarrow>
        filteredIndices logs enabledLevels (debouncedSearchLc toLowerCase q) =
          filteredIndices logs enabledLevels (debouncedSearchLc toLowerCase []))
   \<and> (list_all isWhiteSpace q \<and> toLowerCase [] = [] \<longrightarrow>
        filteredIndices logs enabledLevels (debouncedSearchLc toLowerCase q) =
          filter (\<lambda>i. enabledLevels (level (logs ! i))) [0..<length logs])"
proof (intro conjI impI)
  show "filteredIndices logs enabledLevels (debouncedSearchLc toLowerCase q) =
     filteredIndices logs enabledLevels (debouncedSearchLc toLowerCase (trim q))"
    by (simp add: debouncedSearchLc_def trim_idem)
next
  assume "list_all isWhiteSpace q"
  then have "trim q = []" by (rule trim_whitespace_only)
  moreover have "trim [] = []" by (simp add: trim_def)
  ultimately show "filteredIndices logs enabledLevels (debouncedSearchLc toLowerCase q) =
          filteredIndices logs enabledLevels (debouncedSearchLc toLowerCase [])"
    by (simp add: debouncedSearchLc_def)
next
  assume a: "list_all isWhiteSpace q \<and> toLowerCase [] = []"
  then have "trim q = []" by (simp add: trim_whitespace_only)
  with a have "debouncedSearchLc toLowerCase q = []"
    by (simp add: debouncedSearchLc_def)
  then show "filteredIndices logs enabledLevels (debouncedSearchLc toLowerCase q) =
          filter (\<lambda>i. enabledLevels (level (logs ! i))) [0..<length logs]"
    by (simp add: filteredIndices_filter)
qed

text \<open>The theorem at a blank query and at a query with surrounding blanks.\<close>

theorem trim_invariance_witness:
  "list_all isWhiteSpace (utf16 ''   '') \<and> asciiLower [] = []
   \<and> filteredIndices demoLogs (\<lambda>l. l \<noteq> WARN) (debouncedSearchLc asciiLower (utf16 ''   '')) =
       [0, 1, 2, 4]
   \<and> filteredIndices demoLogs (\<lambda>l. True) (debouncedSearchLc asciiLower (utf16 ''  failed '')) =
       filteredIndices demoLogs (\<lambda>l. True) (debouncedSearchLc asciiLower (utf16 ''failed''))"
proof -
  have a: "list_all isWhiteSpace (utf16 ''   '')"
    by (simp add: utf16_def isWhiteSpace_def)
  have b: "asciiLower [] = []"
    by (simp add: asciiLower_def)
  have lv: "map level demoLogs = [INFO, ERROR, INFO, WARN, ERROR]"
    by (simp add: demoLogs_def mkLogEntry_def)
  have f: "filter (\<lambda>i. level (demoLogs ! i) \<noteq> WARN) [0..<length demoLogs] = [0, 1, 2, 4]"
    by (simp add: demoLogs_def mkLogEntry_def upt_rec)
  have t: "trim (utf16 ''  failed '') = utf16 ''failed''"
    by (simp add: trim_def utf16_def isWhiteSpace_def)
  note w = trim_invariance [of demoLogs "\<lambda>l. l \<noteq> WARN" asciiLower "utf16 ''   ''"]
  note v = trim_invariance [of demoLogs "\<lambda>l. True" asciiLower "utf16 ''  failed ''"]
  from w a b
  have "filteredIndices demoLogs (\<lambda>l. l \<noteq> WARN) (debouncedSearchLc asciiLower (utf16 ''   '')) =
       filter (\<lambda>i. level (demoLogs ! i) \<noteq> WARN) [0..<length demoLogs]"
    by blast
  then have c: "filteredIndices demoLogs (\<lambda>l. l \<noteq> WARN) (debouncedSearchLc asciiLower (utf16 ''   '')) =
       [0, 1, 2, 4]"
    by (simp only: f)
  from v
  have "filteredIndices demoLogs (\<lambda>l. True) (debouncedSearchLc asciiLower (utf16 ''  failed '')) =
       filteredIndices demoLogs (\<lambda>l. True) (debouncedSearchLc asciiLower (trim (utf16 ''  failed '')))"
    by blast
  then have d: "filteredIndices demoLogs (\<lambda>l. True) (debouncedSearchLc asciiLower (utf16 ''  failed '')) =
       filteredIndices demoLogs (\<lambda>l. True) (debouncedSearchLc asciiLower (utf16 ''failed''))"
    by (simp only: t)
  from a b c d show ?thesis by blast
qed

section \<open>Properties of the ingestion buffers\<close>

lemma LogStreamDemo_tick_length:
  "length (LogStreamDemo_tick prev batch) = min (length prev) MAX_LOGS + length batch"
  by (simp add: LogStreamDemo_tick_def Let_def)

lemma LogStreamDemo_run_length:
  "\<lbrakk>list_all (\<lambda>b. length b = p) batches; length logs + p * length batches \<le> MAX_LOGS + p\<rbrakk>
   \<Longrightarrow> length (LogStreamDemo_run logs batches) = length logs + p * length batches"
proof (induction batches arbitrary: logs)
  case Nil
  then show ?case by simp
next
  case (Cons b bs)
  from Cons.prems have lb: "length b = p" and rest: "list_all (\<lambda>b. length b = p) bs"
    by simp_all
  from Cons.prems(2) have small: "length logs \<le> MAX_LOGS"
    by simp
  then have step: "length (LogStreamDemo_tick logs b) = length logs + p"
    by (simp add: LogStreamDemo_tick_length lb)
  have "length (LogStreamDemo_run (LogStreamDemo_tick logs b) bs) =
        length (LogStreamDemo_tick logs b) + p * length bs"
    using Cons.prems(2) step by (intro Cons.IH rest) simp
  then show ?case by (simp add: step)
qed

lemma LogStreamDemo_run_last:
  "LogStreamDemo_run logs (batches @ [b]) = LogStreamDemo_tick (LogStreamDemo_run logs batches) b"
  by (induction batches arbitrary: logs) simp_all

text \<open>
  The sibling buffer of \<^verbatim>\<open>BuildChallengePage\<close> trims and appends in one step, and
  does keep the last 1000 records.
\<close>

lemma BuildChallengePage_append_suffix:
  "BuildChallengePage_append prev newLog =
     drop (length (prev @ [newLog]) - 1000) (prev @ [newLog])"
  by (simp add: BuildChallengePage_append_def)

lemma drop_last_append:
  "drop (length (drop (length A - n) A @ B) - n) (drop (length A - n) A @ B) =
   drop (length (A @ B) - n) (A @ B)"
proof (cases "length A \<le> n")
  case True
  then show ?thesis by simp
next
  case False
  then have "length (drop (length A - n) A) = n" by simp
  moreover from False have "length A + length B - n = (length A - n) + length B" by simp
  ultimately show ?thesis by (simp add: drop_append add.commute)
qed

lemma BuildChallengePage_run_suffix:
  "newLogs \<noteq> [] \<Longrightarrow>
   BuildChallengePage_run logs newLogs =
     drop (length (logs @ newLogs) - 1000) (logs @ newLogs)"
proof (induction newLogs arbitrary: logs)
  case Nil
  then show ?case by simp
next
  case (Cons x xs)
  show ?case
  proof (cases "xs = []")
    case True
    then show ?thesis
      by (simp add: BuildChallengePage_append_suffix)
  next
    case False
    have "BuildChallengePage_run logs (x # xs) =
          BuildChallengePage_run (drop (length (logs @ [x]) - 1000) (logs @ [x])) xs"
      by (simp only: BuildChallengePage_run.simps BuildChallengePage_append_suffix)
    also have "\<dots> = drop (length (drop (length (logs @ [x]) - 1000) (logs @ [x]) @ xs) - 1000)
                        (drop (length (logs @ [x]) - 1000) (logs @ [x]) @ xs)"
      by (rule Cons.IH [OF False])
    also have "\<dots> = drop (length ((logs @ [x]) @ xs) - 1000) ((logs @ [x]) @ xs)"
      by (rule drop_last_append)
    finally show ?thesis by simp
  qed
qed

lemma BuildChallengePage_keeps_last_1000:
  assumes "newLogs \<noteq> []" and "1000 < length logs + length newLogs"
  shows "length (BuildChallengePage_run logs newLogs) = 1000"
    and "BuildChallengePage_run logs newLogs =
           drop (length (logs @ newLogs) - 1000) (logs @ newLogs)"
  using assms by (simp_all add: BuildChallengePage_run_suffix)

text \<open>
  Claim C2. The claim asks that the buffer never holds more than the cap and ends with
  exactly the last \<open>C\<close> records. \<^verbatim>\<open>LogStreamDemo\<close> trims to \<^const>\<open>MAX_LOGS\<close>
  \<^emph>\<open>before\<close> it appends the batch: from its seed of 10000 records, at the initial rate
  of 20 per second (two per tick), the buffer holds exactly \<^const>\<open>MAX_LOGS\<close> records
  after 20000 ticks, 50002 after the next tick, and 50002 again after every later one.
\<close>

theorem LogStreamDemo_exceeds_MAX_LOGS:
  "perTick 20 = 2
   \<and> length (LogStreamDemo_run (replicate 10000 (hd demoLogs))
        (replicate 20000 (replicate (perTick 20) (hd demoLogs)))) = MAX_LOGS
   \<and> length (LogStreamDemo_run (replicate 10000 (hd demoLogs))
        (replicate 20001 (replicate (perTick 20) (hd demoLogs)))) = 50002
   \<and> MAX_LOGS < length (LogStreamDemo_run (replicate 10000 (hd demoLogs))
        (replicate 20001 (replicate (perTick 20) (hd demoLogs))))
   \<and> length (LogStreamDemo_run (replicate 10000 (hd demoLogs))
        (replicate 20002 (replicate (perTick 20) (hd demoLogs)))) = 50002"
proof -
  let ?e = "hd demoLogs"
  have p: "perTick 20 = 2" by (simp add: perTick_def)
  have a: "length (LogStreamDemo_run (replicate 10000 ?e) (replicate 20000 (replicate 2 ?e))) = 50000"
    using LogStreamDemo_run_length [of 2 "replicate 20000 (replicate 2 ?e)" "replicate 10000 ?e"]
    by (simp add: MAX_LOGS_def list_all_iff)
  have b: "length (LogStreamDemo_run (replicate 10000 ?e) (replicate 20001 (replicate 2 ?e))) = 50002"
    using LogStreamDemo_run_length [of 2 "replicate 20001 (replicate 2 ?e)" "replicate 10000 ?e"]
    by (simp add: MAX_LOGS_def list_all_iff)
  have "replicate (20001 + 1) (replicate 2 ?e) =
        replicate 20001 (replicate 2 ?e) @ replicate 1 (replicate 2 ?e)"
    by (rule replicate_add)
  then have "replicate 20002 (replicate 2 ?e) = replicate 20001 (replicate 2 ?e) @ [replicate 2 ?e]"
    by simp
  then have c: "length (LogStreamDemo_run (replicate 10000 ?e) (replicate 20002 (replicate 2 ?e))) = 50002"
    by (simp only: LogStreamDemo_run_last LogStreamDemo_tick_length b) (simp add: MAX_LOGS_def)
  from p a b c show ?thesis by (simp add: MAX_LOGS_def)
qed

section \<open>Properties of useDebouncedValue\<close>

lemmas debounce_defs = useDebouncedValue_mount_def useDebouncedValue_render_def
  debounce_effect_def setTimeout_def clearTimeout_def elapse_def timer_callback_def

lemma mount_state:
  "useDebouncedValue_mount v delayMs now =
     \<lparr>debounced = v, deps = (v, delayMs), cleanup_t = 0, timers = [(0, now + delayMs, v)],
      next_t = 1, setDebounced_calls = []\<rparr>"
  by (simp add: useDebouncedValue_mount_def debounce_effect_def setTimeout_def)

lemma elapse_single:
  "elapse \<lparr>debounced = x, deps = dp, cleanup_t = c, timers = [(i, d, v)], next_t = n,
           setDebounced_calls = calls\<rparr> now =
     (if d \<le> now
      then \<lparr>debounced = v, deps = dp, cleanup_t = c, timers = [], next_t = n,
            setDebounced_calls = calls @ [(d, v)]\<rparr>
      else \<lparr>debounced = x, deps = dp, cleanup_t = c, timers = [(i, d, v)], next_t = n,
            setDebounced_calls = calls\<rparr>)"
  by (simp add: elapse_def timer_callback_def)

lemma render_pending:
  "(v, delayMs) \<noteq> dp \<Longrightarrow>
   useDebouncedValue_render \<lparr>debounced = x, deps = dp, cleanup_t = c, timers = [(c, d, w)],
           next_t = n, setDebounced_calls = calls\<rparr> v delayMs now =
     \<lparr>debounced = x, deps = (v, delayMs), cleanup_t = n, timers = [(n, now + delayMs, v)],
      next_t = n + 1, setDebounced_calls = calls\<rparr>"
  by (simp add: useDebouncedValue_render_def debounce_effect_def setTimeout_def clearTimeout_def)

lemma render_idle:
  "(v, delayMs) \<noteq> dp \<Longrightarrow>
   useDebouncedValue_render \<lparr>debounced = x, deps = dp, cleanup_t = c, timers = [],
           next_t = n, setDebounced_calls = calls\<rparr> v delayMs now =
     \<lparr>debounced = x, deps = (v, delayMs), cleanup_t = n, timers = [(n, now + delayMs, v)],
      next_t = n + 1, setDebounced_calls = calls\<rparr>"
  by (simp add: useDebouncedValue_render_def debounce_effect_def setTimeout_def clearTimeout_def)

lemma abc_run_state:
  "debounce_run 200 (useDebouncedValue_mount [] 200 0) (abc_edits t0) =
     \<lparr>debounced = [], deps = (utf16 ''abc'', 200), cleanup_t = 3,
      timers = [(3, t0 + 300, utf16 ''abc'')], next_t = 4,
      setDebounced_calls = (if 200 \<le> t0 then [(200, [])] else [])\<rparr>"
proof -
  have ne: "utf16 ''a'' \<noteq> []" "utf16 ''ab'' \<noteq> utf16 ''a''" "utf16 ''abc'' \<noteq> utf16 ''ab''"
    by (simp_all add: utf16_def)
  show ?thesis
    unfolding abc_edits_def debounce_run.simps mount_state
    by (cases "200 \<le> t0") (simp_all add: elapse_single render_pending render_idle ne)
qed


lemma edit_restarts_delay:
  assumes "timers st = [(cleanup_t st, d, w)]" and "now < d" and "(v, delayMs) \<noteq> deps st"
  shows "timers (useDebouncedValue_render (elapse st now) v delayMs now) =
           [(next_t st, now + delayMs, v)]
       \<and> setDebounced_calls (useDebouncedValue_render (elapse st now) v delayMs now) =
           setDebounced_calls st"
  using assms
  by (simp add: debounce_defs)

text \<open>
  Claim C4. The hook is mounted at time 0 with the empty query and the delay of 200 ms;
  the query changes to \<^verbatim>\<open>"a"\<close> at \<open>t0\<close>, to \<^verbatim>\<open>"ab"\<close> at \<open>t0 + 50\<close> and to
  \<^verbatim>\<open>"abc"\<close> at \<open>t0 + 100\<close>. At any time \<open>T\<close> after the last edit, the calls of
  \<^verbatim>\<open>setDebounced\<close> so far are: the initial empty query (if the mount timer ran out
  before the first edit), and \<^verbatim>\<open>"abc"\<close>, once, at \<open>t0 + 300\<close>. The debounced value,
  which is what the filter reads, is never \<^verbatim>\<open>"a"\<close> or \<^verbatim>\<open>"ab"\<close> (the log only
  grows, so this covers every earlier moment too). The single step, for any instance
  \<open>st\<close> of the hook whose effect's timer is pending with deadline \<open>d\<close>: an edit at a
  time \<open>now < d\<close> removes that timer without a call of \<^verbatim>\<open>setDebounced\<close> and
  leaves one timer, for the new value, a full delay after \<open>now\<close>.
\<close>

theorem debounce_abc_once:
  assumes "t0 + 100 \<le> T"
    and "timers st = [(cleanup_t st, d, w)]" and "now < d" and "(v, delayMs) \<noteq> deps st"
  shows "timers (useDebouncedValue_render (elapse st now) v delayMs now) =
           [(next_t st, now + delayMs, v)]
       \<and> setDebounced_calls (useDebouncedValue_render (elapse st now) v delayMs now) =
           setDebounced_calls st
       \<and> setDebounced_calls (elapse (debounce_run 200 (useDebouncedValue_mount [] 200 0) (abc_edits t0)) T) =
           (if 200 \<le> t0 then [(200, [])] else []) @
           (if t0 + 300 \<le> T then [(t0 + 300, utf16 ''abc'')] else [])
       \<and> debounced (elapse (debounce_run 200 (useDebouncedValue_mount [] 200 0) (abc_edits t0)) T) =
           (if t0 + 300 \<le> T then utf16 ''abc'' else [])
       \<and> count_list (map snd (setDebounced_calls
            (elapse (debounce_run 200 (useDebouncedValue_mount [] 200 0) (abc_edits t0)) T)))
            (utf16 ''abc'') = (if t0 + 300 \<le> T then 1 else 0)
       \<and> utf16 ''a'' \<notin> set (map snd (setDebounced_calls
            (elapse (debounce_run 200 (useDebouncedValue_mount [] 200 0) (abc_edits t0)) T)))
       \<and> utf16 ''ab'' \<notin> set (map snd (setDebounced_calls
            (elapse (debounce_run 200 (useDebouncedValue_mount [] 200 0) (abc_edits t0)) T)))"
proof -
  have ne: "utf16 ''abc'' \<noteq> []" "utf16 ''a'' \<noteq> []" "utf16 ''ab'' \<noteq> []"
    "utf16 ''a'' \<noteq> utf16 ''abc''" "utf16 ''ab'' \<noteq> utf16 ''abc''"
    by (simp_all add: utf16_def)
  note restart = edit_restarts_delay [OF assms(2) assms(3) assms(4)]
  show ?thesis
    unfolding abc_run_state elapse_single
    using ne restart by simp
qed

text \<open>
  The theorem at \<open>t0 = 0\<close>, read at 1000 ms and at 299 ms, with the single step taken
  at a hook mounted with \<^verbatim>\<open>"a"\<close> and edited to \<^verbatim>\<open>"ab"\<close> after 50 ms.
\<close>

theorem debounce_abc_once_witness:
  "(0::nat) + 100 \<le> 1000
   \<and> timers (useDebouncedValue_mount (utf16 ''a'') 200 0) =
       [(cleanup_t (useDebouncedValue_mount (utf16 ''a'') 200 0), 200, utf16 ''a'')]
   \<and> (50::nat) < 200
   \<and> (utf16 ''ab'', 200) \<noteq> deps (useDebouncedValue_mount (utf16 ''a'') 200 0)
   \<and> timers (useDebouncedValue_render (elapse (useDebouncedValue_mount (utf16 ''a'') 200 0) 50)
        (utf16 ''ab'') 200 50) = [(1, 250, utf16 ''ab'')]
   \<and> setDebounced_calls (elapse (debounce_run 200 (useDebouncedValue_mount [] 200 0) (abc_edits 0)) 1000) =
       [(300, utf16 ''abc'')]
   \<and> debounced (elapse (debounce_run 200 (useDebouncedValue_mount [] 200 0) (abc_edits 0)) 1000) =
       utf16 ''abc''
   \<and> debounced (elapse (debounce_run 200 (useDebouncedValue_mount [] 200 0) (abc_edits 0)) 299) = []"
proof -
  let ?st = "useDebouncedValue_mount (utf16 ''a'') 200 0"
  have h: "(0::nat) + 100 \<le> 1000" by simp
  have g: "(0::nat) + 100 \<le> 299" by simp
  have t: "timers ?st = [(cleanup_t ?st, 200, utf16 ''a'')]"
    by (simp add: mount_state)
  have n: "(50::nat) < 200" by simp
  have c: "(utf16 ''ab'', 200) \<noteq> deps ?st"
    by (simp add: mount_state utf16_def)
  have k: "next_t ?st = 1"
    by (simp add: mount_state)
  from debounce_abc_once [OF h t n c] debounce_abc_once [OF g t n c] h t n c k
  show ?thesis by simp
qed

section \<open>Properties of useAsyncMemo\<close>

lemmas asyncMemo_defs = useAsyncMemo_deps_changed_def asyncMemo_effect_def asyncMemo_cleanup_def
  on_then_def on_catch_def on_finally_def signal_aborted_def useAsyncMemo_mount_def

lemma settle_aborted_value:
  "signal_aborted s c \<Longrightarrow> value_st (settle s c out) = value_st s"
  by (cases out) (simp_all add: on_then_def on_catch_def on_finally_def signal_aborted_def)

lemma settle_aborted_fulfilled:
  "signal_aborted s c \<Longrightarrow> settle s c (Fulfilled v) = s"
  by (simp add: on_then_def on_finally_def)

lemma settle_aborted_AbortError:
  "signal_aborted s c \<Longrightarrow> settle s c (Rejected (DOMException ''AbortError'')) = s"
  by (simp add: on_catch_def on_finally_def)

lemma settle_signals: "signals (settle s c out) = signals s"
  by (cases out) (simp_all add: on_then_def on_catch_def on_finally_def)

lemma settle_signal_aborted: "signal_aborted (settle s c out) c' = signal_aborted s c'"
  by (simp add: signal_aborted_def settle_signals)

lemma settle_live_fulfilled:
  "\<not> signal_aborted s c \<Longrightarrow> value_st (settle s c (Fulfilled v)) = v"
  by (simp add: on_then_def on_finally_def signal_aborted_def)

lemma two_requests:
  assumes "st1 = useAsyncMemo_deps_changed st" and "st2 = useAsyncMemo_deps_changed st1"
  shows "controller st1 \<noteq> controller st2"
    and "signal_aborted st2 (controller st1)"
    and "\<not> signal_aborted st2 (controller st2)"
  using assms by (simp_all add: asyncMemo_defs nth_append)

text \<open>
  Claim C3. From any state, request R1 starts (a render with changed dependencies, whose
  effect allocates controller \<open>r1\<close>) and then R2 starts (controller \<open>r2\<close>), which aborts
  \<open>r1\<close>. Whatever R1 settles with, and whichever of the two settles first, the value
  after both have settled is R2's result; R1 settling leaves the value as it was, and a
  fulfilment of R1 leaves the whole state as it was. The same for the two requests of
  \<^verbatim>\<open>EventViewer\<close>, which run \<^const>\<open>applyFilterAsync\<close>.
\<close>

theorem last_requested_wins:
  assumes "st1 = useAsyncMemo_deps_changed st" and "r1 = controller st1"
    and "st2 = useAsyncMemo_deps_changed st1" and "r2 = controller st2"
  shows "value_st (settle (settle st2 r1 out1) r2 (Fulfilled v2)) = v2
       \<and> value_st (settle (settle st2 r2 (Fulfilled v2)) r1 out1) = v2
       \<and> value_st (settle st2 r1 out1) = value_st st
       \<and> settle st2 r1 (Fulfilled v1) = st2
       \<and> value_st (settle (settle st2 r1 (applyFilterAsync evs1 f1 b)) r2
            (applyFilterAsync evs2 f2 (signal_aborted st2 r2))) = applyFilter evs2 f2
       \<and> value_st (settle (settle st2 r2 (applyFilterAsync evs2 f2 (signal_aborted st2 r2))) r1
            (applyFilterAsync evs1 f1 b)) = applyFilter evs2 f2"
proof -
  note tr = two_requests [OF assms(1) assms(3)]
  have dead: "signal_aborted st2 r1" and live: "\<not> signal_aborted st2 r2"
    using tr assms by simp_all
  have keep: "value_st st2 = value_st st"
    using assms by (simp add: asyncMemo_defs)
  have a: "value_st (settle (settle st2 r1 out) r2 (Fulfilled v)) = v" for out v
    by (rule settle_live_fulfilled) (simp only: settle_signal_aborted live not_False_eq_True)
  have b: "value_st (settle (settle st2 r2 (Fulfilled v)) r1 out) = v" for out v
  proof -
    have "signal_aborted (settle st2 r2 (Fulfilled v)) r1"
      by (simp only: settle_signal_aborted dead)
    then have "value_st (settle (settle st2 r2 (Fulfilled v)) r1 out) =
               value_st (settle st2 r2 (Fulfilled v))"
      by (rule settle_aborted_value)
    also have "\<dots> = v"
      by (rule settle_live_fulfilled [OF live])
    finally show ?thesis .
  qed
  have c: "value_st (settle st2 r1 out1) = value_st st"
    using dead keep by (simp add: settle_aborted_value)
  have d: "settle st2 r1 (Fulfilled v1) = st2"
    using dead by (rule settle_aborted_fulfilled)
  have e: "applyFilterAsync evs2 f2 (signal_aborted st2 r2) = Fulfilled (applyFilter evs2 f2)"
    using live by (simp add: applyFilterAsync_def)
  show ?thesis
    unfolding e using a b c d by blast
qed

text \<open>
  The theorem at the mounted hook, with R1 fulfilled and with R1 rejected by a genuine
  error.
\<close>

theorem last_requested_wins_witness:
  "controller (useAsyncMemo_deps_changed (useAsyncMemo_mount ([] :: Event list))) = 1
   \<and> controller (useAsyncMemo_deps_changed (useAsyncMemo_deps_changed
        (useAsyncMemo_mount ([] :: Event list)))) = 2
   \<and> value_st (settle (settle
        (useAsyncMemo_deps_changed (useAsyncMemo_deps_changed (useAsyncMemo_mount [])))
        1 (Fulfilled [demo_event ''stale''])) 2 (Fulfilled [demo_event ''fresh''])) =
       [demo_event ''fresh'']
   \<and> value_st (settle (settle
        (useAsyncMemo_deps_changed (useAsyncMemo_deps_changed (useAsyncMemo_mount [])))
        2 (Fulfilled [demo_event ''fresh''])) 1 (Rejected (OtherError ''boom''))) =
       [demo_event ''fresh'']"
proof -
  let ?st1 = "useAsyncMemo_deps_changed (useAsyncMemo_mount ([] :: Event list))"
  let ?st2 = "useAsyncMemo_deps_changed ?st1"
  have r1: "controller ?st1 = 1" by (simp add: asyncMemo_defs)
  have r2: "controller ?st2 = 2" by (simp add: asyncMemo_defs)
  note a = last_requested_wins [OF refl r1 [symmetric] refl r2 [symmetric],
      of "Fulfilled [demo_event ''stale'']" "[demo_event ''fresh'']"]
  note b = last_requested_wins [OF refl r1 [symmetric] refl r2 [symmetric],
      of "Rejected (OtherError ''boom'')" "[demo_event ''fresh'']"]
  have x: "value_st (settle (settle ?st2 1 (Fulfilled [demo_event ''stale'']))
             2 (Fulfilled [demo_event ''fresh''])) = [demo_event ''fresh'']"
    by (rule a [THEN conjunct1])
  have y: "value_st (settle (settle ?st2 2 (Fulfilled [demo_event ''fresh'']))
             1 (Rejected (OtherError ''boom''))) = [demo_event ''fresh'']"
    by (rule b [THEN conjunct2, THEN conjunct1])
  from r1 r2 x y show ?thesis by blast
qed

text \<open>
  Claim C8. When the promise rejects with anything that is not an abort error, the error
  is stored in the \<^verbatim>\<open>error\<close> cell and the value stays what it was; it still is after
  the next request has started, and it is replaced when that request fulfils.
\<close>

theorem failure_keeps_value:
  assumes "\<not> isAbortError e"
  shows "value_st (settle st c (Rejected e)) = value_st st
       \<and> error (settle st c (Rejected e)) = Some e
       \<and> value_st (useAsyncMemo_deps_changed (settle st c (Rejected e))) = value_st st
       \<and> value_st (settle (useAsyncMemo_deps_changed (settle st c (Rejected e)))
            (controller (useAsyncMemo_deps_changed (settle st c (Rejected e)))) (Fulfilled v)) = v"
proof -
  let ?s = "settle st c (Rejected e)"
  have a: "value_st ?s = value_st st"
    by (simp add: on_catch_def on_finally_def)
  have b: "error ?s = Some e"
    using assms by (simp add: on_catch_def on_finally_def)
  have c: "value_st (useAsyncMemo_deps_changed ?s) = value_st st"
    using a by (simp add: asyncMemo_defs)
  have "\<not> signal_aborted (useAsyncMemo_deps_changed ?s) (controller (useAsyncMemo_deps_changed ?s))"
    by (simp add: asyncMemo_defs nth_append)
  then have d: "value_st (settle (useAsyncMemo_deps_changed ?s)
            (controller (useAsyncMemo_deps_changed ?s)) (Fulfilled v)) = v"
    by (rule settle_live_fulfilled)
  from a b c d show ?thesis by blast
qed

text \<open>The theorem at a hook showing one event, for a thrown \<^verbatim>\<open>Error\<close>.\<close>

theorem failure_keeps_value_witness:
  "\<not> isAbortError (OtherError ''boom'')
   \<and> value_st (settle (settle (useAsyncMemo_mount []) 0 (Fulfilled [demo_event ''shown'']))
        0 (Rejected (OtherError ''boom''))) = [demo_event ''shown'']
   \<and> error (settle (settle (useAsyncMemo_mount []) 0 (Fulfilled [demo_event ''shown'']))
        0 (Rejected (OtherError ''boom''))) = Some (OtherError ''boom'')"
proof -
  have h: "\<not> isAbortError (OtherError ''boom'')" by simp
  have v: "value_st (settle (useAsyncMemo_mount []) 0 (Fulfilled [demo_event ''shown''])) =
           [demo_event ''shown'']"
    by (simp add: asyncMemo_defs)
  note t = failure_keeps_value [OF h,
      of "settle (useAsyncMemo_mount []) 0 (Fulfilled [demo_event ''shown''])" 0]
  from t v h show ?thesis by simp
qed

section \<open>Properties of the EventViewer stream handler\<close>

lemmas ev_defs = deliver_def ws_onmessage_def onmessage_try_def EventViewer_render_def
  EventViewer_effects_def Let_def

lemma deliver_events:
  "onmessage_set st \<Longrightarrow>
   events (deliver P st data) = events st @ (case P data of None \<Rightarrow> [] | Some v \<Rightarrow> [v])"
  by (simp add: ev_defs split: option.splits)

lemma deliver_invoked:
  "onmessage_set st \<Longrightarrow>
   invoked (deliver P st data) =
     invoked st @ (case (P data, onEventReceivedRef st) of
                     (Some v, Some cb) \<Rightarrow> [(cb_name cb, v)] | _ \<Rightarrow> [])"
  by (simp add: ev_defs split: option.splits)

lemma deliver_keeps:
  "connected (deliver P st data) = connected st"
  "onEventReceivedRef (deliver P st data) = onEventReceivedRef st"
  "onEventReceived (deliver P st data) = onEventReceived st"
  by (simp_all add: ev_defs connected_def split: option.splits)

lemma effects_keeps:
  "connected st \<Longrightarrow> connected (EventViewer_effects st)"
  "onEventReceivedRef (EventViewer_effects st) = onEventReceived st"
  "onEventReceived (EventViewer_effects st) = onEventReceived st"
  "connected st \<Longrightarrow> events (EventViewer_effects st) = events st"
  "connected st \<Longrightarrow> invoked (EventViewer_effects st) = invoked st"
  by (simp_all add: ev_defs connected_def)

lemma render_keeps:
  "connected st \<Longrightarrow> connected (EventViewer_render st cb (mockStarted st))"
  "onEventReceivedRef (EventViewer_render st cb started) = onEventReceived st"
  "onEventReceived (EventViewer_render st cb started) = cb"
  "connected st \<Longrightarrow> events (EventViewer_render st cb (mockStarted st)) = events st"
  "connected st \<Longrightarrow> invoked (EventViewer_render st cb (mockStarted st)) = invoked st"
  by (simp_all add: ev_defs connected_def)

lemma EventViewer_run_events:
  "connected st \<Longrightarrow> events (EventViewer_run P st steps) = events st @ admitted P steps"
proof (induction P st steps rule: EventViewer_run.induct)
  case (1 P st)
  show ?case by simp
next
  case (2 P st cb steps)
  then show ?case by (simp add: render_keeps)
next
  case (3 P st steps)
  then show ?case by (simp add: effects_keeps)
next
  case (4 P st data steps)
  from "4.prems"(1) have c: "connected (deliver P st data)"
    by (simp only: deliver_keeps)
  from "4.prems"(1) have o: "onmessage_set st"
    by (simp add: connected_def)
  from "4.IH" [OF c] deliver_events [OF o, of P data] show ?case by simp
qed

lemma EventViewer_run_once:
  "\<lbrakk>connected st; onEventReceivedRef st \<noteq> None; onEventReceived st \<noteq> None;
    list_all callback_defined steps\<rbrakk>
   \<Longrightarrow> map snd (invoked (EventViewer_run P st steps)) =
       map snd (invoked st) @ admitted P steps"
proof (induction P st steps rule: EventViewer_run.induct)
  case (1 P st)
  show ?case by simp
next
  case (2 P st cb steps)
  from "2.prems"(4) have "cb \<noteq> None"
    by (cases cb) simp_all
  with 2 show ?case by (simp add: render_keeps)
next
  case (3 P st steps)
  then show ?case by (simp add: effects_keeps)
next
  case (4 P st data steps)
  from "4.prems"(1) have c: "connected (deliver P st data)"
    by (simp only: deliver_keeps)
  from "4.prems"(1) have o: "onmessage_set st"
    by (simp add: connected_def)
  from "4.prems" obtain cb where r: "onEventReceivedRef st = Some cb" by auto
  have step: "map snd (invoked (deliver P st data)) =
              map snd (invoked st) @ (case P data of None \<Rightarrow> [] | Some v \<Rightarrow> [v])"
    by (simp add: deliver_invoked [OF o] r split: option.splits)
  from "4.prems" have "map snd (invoked (EventViewer_run P (deliver P st data) steps)) =
        map snd (invoked (deliver P st data)) @ admitted P steps"
    by (intro "4.IH" c) (simp_all add: deliver_keeps)
  with step show ?case by simp
qed

lemma flushed_render_invokes_new:
  assumes "connected st" and "P data = Some v"
  shows "invoked (EventViewer_run P st [Render (Some cb2), Effects, Message data]) =
           invoked st @ [(cb_name cb2, v)]"
  using assms by (simp add: ev_defs connected_def)

lemma connected_viewer_state:
  "connected connected_viewer" "events connected_viewer = []" "invoked connected_viewer = []"
  "onEventReceivedRef connected_viewer = Some cb_first"
  by (simp_all add: connected_viewer_def EventViewer_mount_def ev_defs connected_def)

lemma demo_parse_values:
  "demo_parse payload_e1 = Some event_e1"
  "demo_parse (utf16 ''null'') = Some JNull"
  "demo_parse (utf16 ''42'') = Some (JNumber 42)"
  "demo_parse (utf16 ''{bad'') = None"
  by (simp_all add: demo_parse_def payload_e1_def utf16_def)

lemma payload_e1_is_record: "parses_as_record demo_parse payload_e1"
  by (simp add: parses_as_record_def demo_parse_values event_e1_def has_field_def
      is_event_type_def utf16_def)

text \<open>
  Claim C5. The claim asks that a record arriving after the consumer has replaced its
  callback invokes the new callback. \<^verbatim>\<open>useLatestRef\<close> writes the ref in a passive
  effect, which runs some time after the render has committed: at the connected viewer,
  after the render with \<open>cb_second\<close> has committed, a record that arrives before that
  effect has run invokes \<open>cb_first\<close>, the callback of the render before; a record that
  arrives after the effect invokes \<open>cb_second\<close>. (That every admitted value notifies
  exactly once holds in all histories whose renders supply a callback:
  \<open>EventViewer_run_once\<close>.)
\<close>

theorem stale_callback_before_effects:
  "onmessage_set connected_viewer
   \<and> onEventReceived (EventViewer_run demo_parse connected_viewer [Render (Some cb_second)]) =
       Some cb_second
   \<and> invoked (EventViewer_run demo_parse connected_viewer
        [Render (Some cb_second), Message payload_e1]) = [(1, event_e1)]
   \<and> invoked (EventViewer_run demo_parse connected_viewer
        [Render (Some cb_second), Effects, Message payload_e1]) = [(2, event_e1)]"
  by (simp add: connected_viewer_def EventViewer_mount_def ev_defs demo_parse_values
      cb_first_def cb_second_def)

text \<open>
  Claim C9, as the specification words it, asks that a payload which fails to parse as a
  record leaves the buffer and the callback alone. The payload \<^verbatim>\<open>null\<close> is no
  record, but \<^verbatim>\<open>JSON.parse\<close> returns for it without throwing, and the handler
  appends the value and passes it to the callback.
\<close>

theorem non_record_admitted_counterexample:
  "\<not> parses_as_record demo_parse (utf16 ''null'')
   \<and> events connected_viewer = []
   \<and> invoked connected_viewer = []
   \<and> events (deliver demo_parse connected_viewer (utf16 ''null'')) = [JNull]
   \<and> invoked (deliver demo_parse connected_viewer (utf16 ''null'')) = [(1, JNull)]"
  by (simp add: parses_as_record_def connected_viewer_def EventViewer_mount_def ev_defs
      demo_parse_values cb_first_def)

text \<open>
  Claim C9, amended: the payloads that are swallowed are those on which
  \<^verbatim>\<open>JSON.parse\<close> throws. The message handler never lets an exception out. A
  payload on which \<^verbatim>\<open>JSON.parse\<close> throws leaves the whole state as it was: nothing
  appended, no callback invoked. For a payload it accepts, the value it returns is
  appended to \<^verbatim>\<open>events\<close>, and the callback in the ref, when there is one, is
  invoked with it (even a callback that throws is invoked, and its exception is
  swallowed like the parser's).
\<close>

theorem malformed_swallowed:
  "snd (ws_onmessage JSON_parse st data) = None
   \<and> (JSON_parse data = None \<longrightarrow> fst (ws_onmessage JSON_parse st data) = st)
   \<and> (JSON_parse data = Some v \<longrightarrow>
        events (fst (ws_onmessage JSON_parse st data)) = events st @ [v])
   \<and> (JSON_parse data = Some v \<and> onEventReceivedRef st = Some cb \<longrightarrow>
        invoked (fst (ws_onmessage JSON_parse st data)) = invoked st @ [(cb_name cb, v)])"
  by (simp add: ws_onmessage_def onmessage_try_def Let_def split: option.splits prod.splits)

text \<open>
  The theorem at a payload the parser rejects, and at a record payload under a callback
  that throws.
\<close>

theorem malformed_swallowed_witness:
  "demo_parse (utf16 ''{bad'') = None
   \<and> demo_parse payload_e1 = Some event_e1
   \<and> onEventReceivedRef (connected_viewer\<lparr>onEventReceivedRef := Some cb_second\<rparr>) = Some cb_second
   \<and> fst (ws_onmessage demo_parse connected_viewer (utf16 ''{bad'')) = connected_viewer
   \<and> events (fst (ws_onmessage demo_parse (connected_viewer\<lparr>onEventReceivedRef := Some cb_second\<rparr>)
        payload_e1)) = [event_e1]
   \<and> invoked (fst (ws_onmessage demo_parse (connected_viewer\<lparr>onEventReceivedRef := Some cb_second\<rparr>)
        payload_e1)) = [(2, event_e1)]
   \<and> snd (ws_onmessage demo_parse (connected_viewer\<lparr>onEventReceivedRef := Some cb_second\<rparr>)
        payload_e1) = None"
proof -
  let ?st = "connected_viewer\<lparr>onEventReceivedRef := Some cb_second\<rparr>"
  have a: "demo_parse (utf16 ''{bad'') = None" and b: "demo_parse payload_e1 = Some event_e1"
    by (simp_all add: demo_parse_values)
  have c: "onEventReceivedRef ?st = Some cb_second" by simp
  have i: "invoked ?st = []" and e: "events ?st = []" and k: "cb_name cb_second = 2"
    by (simp_all add: connected_viewer_state cb_second_def)
  note bad = malformed_swallowed [of demo_parse connected_viewer "utf16 ''{bad''" event_e1 cb_second]
  note good = malformed_swallowed [of demo_parse ?st payload_e1 event_e1 cb_second]
  from bad a have d1: "fst (ws_onmessage demo_parse connected_viewer (utf16 ''{bad'')) = connected_viewer"
    by blast
  from good b c have "events (fst (ws_onmessage demo_parse ?st payload_e1)) = events ?st @ [event_e1]"
    and "invoked (fst (ws_onmessage demo_parse ?st payload_e1)) =
        invoked ?st @ [(cb_name cb_second, event_e1)]"
    and d4: "snd (ws_onmessage demo_parse ?st payload_e1) = None"
    by blast+
  then have d2: "events (fst (ws_onmessage demo_parse ?st payload_e1)) = [event_e1]"
    and d3: "invoked (fst (ws_onmessage demo_parse ?st payload_e1)) = [(2, event_e1)]"
    by (simp_all only: i e k append_Nil)
  from a b c d1 d2 d3 d4 show ?thesis by blast
qed

section \<open>Properties of the follow logic\<close>

lemmas viewer_defs = itemCount_changes_def commit_def layoutEffect_def effectiveFollow_def
  onScroll_def scroll_event_def jumpToLatest_def viewer_mount_def Let_def

text \<open>
  Claim C6. In the pinned state (\<^const>\<open>effectiveFollow\<close>, with the layout effect up
  to date), when the visible index set grows to \<open>n\<close> rows the viewer calls
  \<^verbatim>\<open>scrollToItem(n - 1, "end")\<close>, once, and stays pinned; the scroll event the list
  reports for a requested scroll, at whatever offset, changes nothing in the state, so it
  cannot unpin the viewer.
\<close>

theorem pin_to_latest:
  assumes "effectiveFollow st"
    and "layout_deps st = (effectiveFollow st, itemCount st)"
    and "itemCount st < n"
  shows "scrollToItem_calls (itemCount_changes st n) = scrollToItem_calls st @ [(n - 1, align_end)]
       \<and> effectiveFollow (itemCount_changes st n)
       \<and> scroll_event (itemCount_changes st n)
            \<lparr>scrollOffset = off, scrollUpdateWasRequested = True\<rparr> = itemCount_changes st n
       \<and> layout_deps (itemCount_changes st n) =
            (effectiveFollow (itemCount_changes st n), itemCount (itemCount_changes st n))"
  using assms by (simp add: viewer_defs)

text \<open>The theorem at 10000 visible rows growing by one.\<close>

theorem pin_to_latest_witness:
  "effectiveFollow (viewer_mount 10000 24 520)
   \<and> layout_deps (viewer_mount 10000 24 520) =
       (effectiveFollow (viewer_mount 10000 24 520), itemCount (viewer_mount 10000 24 520))
   \<and> itemCount (viewer_mount 10000 24 520) < 10001
   \<and> scrollToItem_calls (itemCount_changes (viewer_mount 10000 24 520) 10001) =
       [(9999, align_end), (10000, align_end)]
   \<and> effectiveFollow (scroll_event (itemCount_changes (viewer_mount 10000 24 520) 10001)
        \<lparr>scrollOffset = 239504, scrollUpdateWasRequested = True\<rparr>)"
proof -
  let ?st = "viewer_mount 10000 24 520"
  have a: "effectiveFollow ?st" by (simp add: viewer_defs)
  have b: "layout_deps ?st = (effectiveFollow ?st, itemCount ?st)" by (simp add: viewer_defs)
  have c: "itemCount ?st < 10001" by (simp add: viewer_defs)
  have d: "scrollToItem_calls ?st = [(9999, align_end)]" by (simp add: viewer_defs)
  note t = pin_to_latest [OF a b c, of 239504]
  from t d have e: "scrollToItem_calls (itemCount_changes ?st 10001) =
       [(9999, align_end), (10000, align_end)]" by simp
  from t have f: "effectiveFollow (scroll_event (itemCount_changes ?st 10001)
        \<lparr>scrollOffset = 239504, scrollUpdateWasRequested = True\<rparr>)" by simp
  from a b c e f show ?thesis by blast
qed

lemma jumpToLatest_atBottom: "atBottom (jumpToLatest st) = atBottom st"
  by (simp add: jumpToLatest_def)

lemma jumpToLatest_then_requested_scroll:
  "effectiveFollow (scroll_event (jumpToLatest st)
     \<lparr>scrollOffset = off, scrollUpdateWasRequested = True\<rparr>) = effectiveFollow st"
  by (simp add: viewer_defs)

lemma scroll_back_pins:
  assumes "\<not> scrollUpdateWasRequested props"
    and "scrollOffset props \<ge> max 0 (real (itemCount st) * rowHeight st - height st) - 2 * rowHeight st"
    and "autoFollowEnabled st"
  shows "effectiveFollow (scroll_event st props)"
  using assms by (simp add: viewer_defs)

text \<open>
  Claim C7. The claim asks that the jump-to-latest action pins the viewer.
  \<^const>\<open>jumpToLatest\<close> only calls \<^verbatim>\<open>scrollToItem\<close>: it does not set
  \<^verbatim>\<open>atBottom\<close>, and the scroll event that follows is a requested one, which
  \<^const>\<open>onScroll\<close> ignores. So at \<^const>\<open>unpinned_viewer\<close> (auto-follow enabled, user
  scrolled to the top) the viewer is still unpinned after the jump and after its scroll
  event, although the list now shows the last row; a user scroll to the same offset does
  pin it.
\<close>

theorem jumpToLatest_stays_unpinned:
  "autoFollowEnabled unpinned_viewer \<and> \<not> atBottom unpinned_viewer
   \<and> scrollToItem_calls (jumpToLatest unpinned_viewer) =
       scrollToItem_calls unpinned_viewer @ [(99, align_end)]
   \<and> \<not> atBottom (jumpToLatest unpinned_viewer)
   \<and> \<not> effectiveFollow (jumpToLatest unpinned_viewer)
   \<and> \<not> effectiveFollow (scroll_event (jumpToLatest unpinned_viewer)
          \<lparr>scrollOffset = 1880, scrollUpdateWasRequested = True\<rparr>)
   \<and> effectiveFollow (scroll_event unpinned_viewer
          \<lparr>scrollOffset = 1880, scrollUpdateWasRequested = False\<rparr>)"
  by (simp add: unpinned_viewer_def viewer_defs)

end
